theory Spec2Isabelle
  imports Main "HOL-Library.Word" "HOL-Library.Multiset"
begin

section \<open>Data model\<close>

text \<open>
  The program works on \<^verbatim>\<open>std::vector<int>\<close>. A C++ \<^verbatim>\<open>int\<close> is a 32-bit two's
  complement machine integer; it is modelled as a 32-bit word that is read through
  \<^const>\<open>sint\<close> whenever the code compares two values with \<^verbatim>\<open>operator<\<close>
  (\<open><s\<close> is the signed comparison of words). The code performs no arithmetic on the
  elements, so no wrap-around occurs. A vector is a list.
\<close>

type_synonym cint = "32 word"

text \<open>
  \<^verbatim>\<open>std::sort(first, last)\<close> rearranges a range into ascending order with respect to
  \<^verbatim>\<open>operator<\<close>. The order of equivalent elements is not fixed by the standard, but two
  \<^verbatim>\<open>int\<close>s that are equivalent are equal, so the outcome is the one ascending
  rearrangement of the range (lemma \<open>std_sort_unique\<close> below).
\<close>

definition std_sort :: "cint list \<Rightarrow> cint list" where
  "std_sort xs = sort_key sint xs"

section \<open>Solution::processData and Solution::validateInput\<close>

text \<open>
  The range-based \<^verbatim>\<open>for (int item : data)\<close> visits the elements of \<^verbatim>\<open>data\<close> front to
  back. \<^verbatim>\<open>seen\<close> is a \<^verbatim>\<open>std::set<int>\<close> that is only inserted into and searched
  (\<^verbatim>\<open>seen.find(item) == seen.end()\<close> holds when \<^verbatim>\<open>item\<close> is not in \<^verbatim>\<open>seen\<close>);
  \<^verbatim>\<open>result.push_back(item)\<close> appends at the end.
\<close>

fun processData_loop :: "cint list \<Rightarrow> cint set \<Rightarrow> cint list \<Rightarrow> cint set \<times> cint list" where
  "processData_loop [] seen result = (seen, result)"
| "processData_loop (item # rest) seen result =
     (if item \<notin> seen
      then processData_loop rest (insert item seen) (result @ [item])
      else processData_loop rest seen result)"

definition processData :: "cint list \<Rightarrow> cint list" where
  "processData data =
     (let (seen, result) = processData_loop data {} []
      in std_sort result)"

definition validateInput :: "cint list \<Rightarrow> bool" where
  "validateInput data = (\<not> (data = []))"

section \<open>The same two member functions on a store of vectors\<close>

text \<open>
  Both member functions take \<^verbatim>\<open>std::vector<int>& data\<close>, a non-const reference, so the
  callee could write to the caller's vector. To speak about that, the vectors alive are
  kept in a store, a list of vectors indexed by address; a reference is an address of the
  store (a C++ reference is always bound to a live object, so a reference \<open>data\<close> into a
  store \<open>h\<close> satisfies \<open>data < length h\<close>).

  \<^verbatim>\<open>std::vector<int> result;\<close> constructs a new empty vector: it is placed at the next
  unused address \<open>length h\<close>. The range-based \<^verbatim>\<open>for\<close> is the iterator loop it abbreviates:
  \<open>it\<close> starts at \<^verbatim>\<open>data.begin()\<close> (index 0), the loop ends when \<open>it\<close> equals
  \<^verbatim>\<open>data.end()\<close> (index \<^verbatim>\<open>data.size()\<close>), \<^verbatim>\<open>item\<close> is a copy of \<^verbatim>\<open>*it\<close>, and
  \<^verbatim>\<open>++it\<close> follows each round. Every round reads \<^verbatim>\<open>data\<close> from the current store and
  \<^verbatim>\<open>push_back\<close> writes \<^verbatim>\<open>result\<close> in the current store. The loop is a partial
  function: \<open>None\<close> stands for a loop that never reaches \<^verbatim>\<open>data.end()\<close>.
  \<^verbatim>\<open>std::sort(result.begin(), result.end())\<close> sorts \<^verbatim>\<open>result\<close> in place, and
  \<^verbatim>\<open>return result;\<close> hands the vector at that address to the caller.
\<close>

type_synonym addr = nat

type_synonym store = "cint list list"

partial_function (option) processData_for ::
  "store \<Rightarrow> addr \<Rightarrow> addr \<Rightarrow> nat \<Rightarrow> cint set \<Rightarrow> store option" where
  "processData_for h data result it seen =
     (if it = length (h ! data) then Some h
      else let item = h ! data ! it in
           if item \<notin> seen
           then processData_for (h[result := h ! result @ [item]]) data result (Suc it)
                  (insert item seen)
           else processData_for h data result (Suc it) seen)"

declare processData_for.simps [code]

definition processData_st :: "store \<Rightarrow> addr \<Rightarrow> (store \<times> addr) option" where
  "processData_st h data =
     (let result = length h; h0 = h @ [[]]
      in case processData_for h0 data result 0 {} of
           None \<Rightarrow> None
         | Some h1 \<Rightarrow> Some (h1[result := std_sort (h1 ! result)], result))"

definition validateInput_st :: "store \<Rightarrow> addr \<Rightarrow> store \<times> bool" where
  "validateInput_st h data = (h, \<not> (h ! data = []))"

section \<open>Notions of the specification\<close>

text \<open>
  Strictly ascending: each element is strictly less than the next one, in the order of
  \<^verbatim>\<open>int\<close>.
\<close>

fun strictly_ascending :: "cint list \<Rightarrow> bool" where
  "strictly_ascending (x # y # ys) = (x <s y \<and> strictly_ascending (y # ys))"
| "strictly_ascending _ = True"

text \<open>
  The alternative algorithm of the specification: insert all elements into an ordered set
  and read the set back in order. The ordered set of \<^verbatim>\<open>int\<close>s is represented by its
  ascending read-out; inserting a value that is already present leaves the set as it is.
\<close>

fun ordered_set_insert :: "cint \<Rightarrow> cint list \<Rightarrow> cint list" where
  "ordered_set_insert x [] = [x]"
| "ordered_set_insert x (y # ys) =
     (if x <s y then x # y # ys
      else if y <s x then y # ordered_set_insert x ys
      else y # ys)"

definition ordered_set_alternative :: "cint list \<Rightarrow> cint list" where
  "ordered_set_alternative S = fold ordered_set_insert S []"

section \<open>The signed order on \<^verbatim>\<open>int\<close>\<close>

lemma sint_inj_on: "inj_on (sint :: cint \<Rightarrow> int) A"
  by (rule inj_onI) (rule signed_word_eqI)

lemma sless_is_sint_less: "(<s) = (\<lambda>x y :: cint. sint x < sint y)"
  by (intro ext) (rule word_sless_alt)

lemma sle_is_sint_le: "(\<le>s) = (\<lambda>x y :: cint. sint x \<le> sint y)"
  by (intro ext) (rule word_sle_eq)

lemma sorted_wrt_sless_iff:
  fixes xs :: "cint list"
  shows "sorted_wrt (<s) xs \<longleftrightarrow> sorted (map sint xs) \<and> distinct xs"
proof -
  have "sorted_wrt (<s) xs \<longleftrightarrow> sorted_wrt (<) (map sint xs)"
    by (simp add: sless_is_sint_less sorted_wrt_map)
  also have "\<dots> \<longleftrightarrow> sorted (map sint xs) \<and> distinct (map sint xs)"
    by (rule strict_sorted_iff)
  also have "distinct (map sint xs) \<longleftrightarrow> distinct xs"
    by (simp add: distinct_map sint_inj_on)
  finally show ?thesis .
qed

lemma sorted_wrt_sless_unique:
  fixes xs ys :: "cint list"
  assumes "sorted_wrt (<s) xs" "sorted_wrt (<s) ys" "set xs = set ys"
  shows "xs = ys"
proof (rule map_sorted_distinct_set_unique[of sint])
  show "inj_on sint (set xs \<union> set ys)" by (rule sint_inj_on)
qed (use assms in \<open>simp_all add: sorted_wrt_sless_iff distinct_map sint_inj_on\<close>)

lemma strictly_ascending_iff: "strictly_ascending xs \<longleftrightarrow> sorted_wrt (<s) xs"
  by (induction xs rule: strictly_ascending.induct) (auto intro: signed.less_trans)

text \<open>
  Whatever algorithm \<^verbatim>\<open>std::sort\<close> runs, its outcome is a rearrangement of the range
  that ascends with respect to \<^verbatim>\<open>operator<\<close>; there is exactly one, \<^const>\<open>std_sort\<close>.
\<close>

lemma std_sort_unique:
  assumes m: "mset ys = mset xs" and s: "sorted_wrt (\<le>s) ys"
  shows "ys = std_sort xs"
proof -
  from s have "sorted (map sint ys)"
    by (simp add: sle_is_sint_le sorted_wrt_map)
  moreover have "filter (\<lambda>x. sint k = sint x) ys = filter (\<lambda>x. sint k = sint x) xs"
    for k :: cint
  proof -
    have e: "(\<lambda>x :: cint. sint k = sint x) = HOL.eq k"
      by (intro ext) (auto intro: signed_word_eqI)
    show ?thesis unfolding e
      using m by (simp flip: replicate_count_mset_eq_filter_eq)
  qed
  ultimately have "sort_key sint xs = ys"
    using m by (intro properties_for_sort_key)
  then show ?thesis by (simp add: std_sort_def)
qed

section \<open>The loop of processData\<close>

lemma loop_seen: "fst (processData_loop xs seen result) = seen \<union> set xs"
  by (induction xs arbitrary: seen result) auto

lemma loop_set:
  "set (snd (processData_loop xs seen result)) = set result \<union> (set xs - seen)"
  by (induction xs arbitrary: seen result) auto

lemma loop_distinct:
  "distinct result \<Longrightarrow> set result \<subseteq> seen \<Longrightarrow>
   distinct (snd (processData_loop xs seen result))"
proof (induction xs arbitrary: seen result)
  case Nil
  then show ?case by simp
next
  case (Cons item rest)
  show ?case
  proof (cases "item \<in> seen")
    case True
    then show ?thesis using Cons by simp
  next
    case False
    have "distinct (result @ [item])" using Cons.prems False by auto
    moreover have "set (result @ [item]) \<subseteq> insert item seen" using Cons.prems by auto
    ultimately show ?thesis using Cons.IH False by simp
  qed
qed

lemma loop_fresh:
  "distinct xs \<Longrightarrow> set xs \<inter> seen = {} \<Longrightarrow>
   processData_loop xs seen result = (seen \<union> set xs, result @ xs)"
  by (induction xs arbitrary: seen result) auto

lemma processData_alt: "processData data = std_sort (snd (processData_loop data {} []))"
  by (simp add: processData_def split: prod.split)

lemma set_processData: "set (processData S) = set S"
  by (simp add: processData_alt std_sort_def loop_set)

lemma distinct_processData: "distinct (processData S)"
  by (simp add: processData_alt std_sort_def loop_distinct)

lemma sorted_processData: "sorted (map sint (processData S))"
  by (simp add: processData_alt std_sort_def)

section \<open>The ordered-set alternative\<close>

lemma set_ordered_set_insert: "set (ordered_set_insert x ys) = insert x (set ys)"
  by (induction ys) (auto simp: signed.not_less dest: signed.order_antisym)

lemma sorted_ordered_set_insert:
  "sorted_wrt (<s) ys \<Longrightarrow> sorted_wrt (<s) (ordered_set_insert x ys)"
  by (induction ys)
     (auto simp: set_ordered_set_insert signed.not_less dest: signed.order_antisym)

lemma fold_ordered_set_insert:
  "sorted_wrt (<s) acc \<Longrightarrow>
   sorted_wrt (<s) (fold ordered_set_insert S acc) \<and>
   set (fold ordered_set_insert S acc) = set S \<union> set acc"
  by (induction S arbitrary: acc)
     (auto simp: sorted_ordered_set_insert set_ordered_set_insert)

section \<open>The loop on the store\<close>

text \<open>
  Started at an iterator position inside \<^verbatim>\<open>data\<close>, with \<^verbatim>\<open>result\<close> a different live
  vector, the iterator loop ends, and it leaves in \<^verbatim>\<open>result\<close> what
  \<^const>\<open>processData_loop\<close> computes on the elements still to visit; no other vector of
  the store is written.
\<close>

lemma processData_for_loop:
  assumes "data < length h" "result < length h" "result \<noteq> data" "it \<le> length (h ! data)"
  shows "processData_for h data result it seen =
         Some (h[result := snd (processData_loop (drop it (h ! data)) seen (h ! result))])"
  using assms
proof (induction "length (h ! data) - it" arbitrary: h it seen)
  case 0
  then have "it = length (h ! data)" by simp
  then show ?case by (subst processData_for.simps) simp
next
  case (Suc n)
  then have lt: "it < length (h ! data)" by simp
  let ?item = "h ! data ! it"
  have dr: "drop it (h ! data) = ?item # drop (Suc it) (h ! data)"
    using lt by (simp add: Cons_nth_drop_Suc)
  show ?case
  proof (cases "?item \<in> seen")
    case True
    have "processData_for h data result it seen = processData_for h data result (Suc it) seen"
      using lt True by (subst processData_for.simps) simp
    also have "\<dots> = Some (h[result :=
        snd (processData_loop (drop (Suc it) (h ! data)) seen (h ! result))])"
      using Suc.prems Suc.hyps(2) lt by (intro Suc.hyps(1)) simp_all
    finally show ?thesis using True by (simp add: dr)
  next
    case False
    let ?h = "h[result := h ! result @ [?item]]"
    have same: "?h ! data = h ! data" using Suc.prems by simp
    have "processData_for h data result it seen =
          processData_for ?h data result (Suc it) (insert ?item seen)"
      using lt False by (subst processData_for.simps) (simp add: Let_def)
    also have "\<dots> = Some (?h[result :=
        snd (processData_loop (drop (Suc it) (?h ! data)) (insert ?item seen) (?h ! result))])"
      using Suc.prems Suc.hyps(2) lt same by (intro Suc.hyps(1)) simp_all
    finally show ?thesis using False Suc.prems by (simp add: dr same)
  qed
qed

lemma processData_st_eq:
  assumes "data < length h"
  shows "processData_st h data = Some (h @ [processData (h ! data)], length h)"
proof -
  let ?h0 = "h @ [[]]"
  have d: "?h0 ! data = h ! data" using assms by (simp add: nth_append)
  have "processData_for ?h0 data (length h) 0 {} =
        Some (?h0[length h :=
          snd (processData_loop (drop 0 (?h0 ! data)) {} (?h0 ! length h))])"
    using assms by (intro processData_for_loop) simp_all
  then have "processData_for ?h0 data (length h) 0 {} =
        Some (h @ [snd (processData_loop (h ! data) {} [])])"
    by (simp add: d)
  then show ?thesis
    by (simp add: processData_st_def processData_alt)
qed

section \<open>Properties of the specification\<close>

text \<open>
  C1: for every input sequence \<open>S\<close>, the output of processData is sorted strictly
  ascending: each element is strictly less than the next (and so less than every later
  one), and the output contains no duplicate values.
\<close>

theorem processData_strictly_ascending:
  "strictly_ascending (processData S) \<and> sorted_wrt (<s) (processData S)
   \<and> distinct (processData S)"
  by (simp add: strictly_ascending_iff sorted_wrt_sless_iff sorted_processData
      distinct_processData)

text \<open>
  C2: for every input sequence \<open>S\<close>, the set of values occurring in the output of
  processData equals the set of values occurring in \<open>S\<close>.
\<close>

theorem processData_same_values: "set (processData S) = set S"
  by (rule set_processData)

text \<open>
  C4: validateInput returns true exactly when the input has at least one element; it
  returns false on the empty sequence and true on every one-element sequence.
\<close>

theorem validateInput_non_empty:
  "(validateInput S \<longleftrightarrow> 1 \<le> length S) \<and> \<not> validateInput [] \<and> validateInput [x]"
  by (cases S) (simp_all add: validateInput_def)

text \<open>
  C5: the examples of the specification: \<open>[3, 1, 2, 3, 1]\<close> yields \<open>[1, 2, 3]\<close>, the empty
  sequence yields the empty sequence, and \<open>[5, 5, 5, 5]\<close> yields \<open>[5]\<close>.
\<close>

theorem processData_examples:
  "processData [3, 1, 2, 3, 1] = [1, 2, 3] \<and> processData [] = []
   \<and> processData [5, 5, 5, 5] = [5]"
  by (simp add: processData_def std_sort_def)

text \<open>
  C3: processData is idempotent: applying it to its own output gives that output again.
\<close>

theorem processData_idempotent: "processData (processData S) = processData S"
proof -
  let ?out = "processData S"
  have "processData_loop ?out {} [] = ({} \<union> set ?out, [] @ ?out)"
    by (rule loop_fresh) (simp_all add: distinct_processData)
  then have "processData ?out = std_sort ?out"
    by (simp add: processData_alt)
  also have "\<dots> = ?out"
    unfolding std_sort_def by (rule sort_key_id_if_sorted) (rule sorted_processData)
  finally show ?thesis .
qed

text \<open>
  C6: processData and validateInput have no side effects. Called with a reference
  \<open>data\<close> to a live vector of the store \<open>h\<close>, processData returns and leaves every
  vector that was alive before the call as it was, the input among them; the vector it
  returns sits at an address that was not in use before the call, so it is not the input,
  and it holds the output of processData on the input. validateInput leaves the store as
  it is and answers as on the value of the input.
\<close>

theorem processData_no_side_effects:
  assumes "data < length h"
  shows "(\<exists>h'. processData_st h data = Some (h', length h)
            \<and> length h' = Suc (length h) \<and> take (length h) h' = h
            \<and> h' ! data = h ! data \<and> length h \<noteq> data
            \<and> h' ! length h = processData (h ! data))
         \<and> validateInput_st h data = (h, validateInput (h ! data))"
proof -
  let ?h' = "h @ [processData (h ! data)]"
  have "processData_st h data = Some (?h', length h)"
    using assms by (rule processData_st_eq)
  moreover have "?h' ! data = h ! data"
    using assms by (simp add: nth_append)
  moreover have "length h \<noteq> data"
    using assms by simp
  ultimately have "\<exists>h'. processData_st h data = Some (h', length h)
      \<and> length h' = Suc (length h) \<and> take (length h) h' = h
      \<and> h' ! data = h ! data \<and> length h \<noteq> data
      \<and> h' ! length h = processData (h ! data)"
    by simp
  moreover have "validateInput_st h data = (h, validateInput (h ! data))"
    by (simp add: validateInput_st_def validateInput_def)
  ultimately show ?thesis by blast
qed

theorem processData_no_side_effects_witness:
  "(1::nat) < length [[7], [3, 1, 2, 3, 1 :: cint]]
   \<and> processData_st [[7], [3, 1, 2, 3, 1]] 1 = Some ([[7], [3, 1, 2, 3, 1], [1, 2, 3]], 2)
   \<and> validateInput_st [[7], [3, 1, 2, 3, 1]] 1 = ([[7], [3, 1, 2, 3, 1]], True)"
proof -
  let ?h = "[[7], [3, 1, 2, 3, 1 :: cint]]"
  have lt: "(1::nat) < length ?h" by simp
  have out: "processData (?h ! 1) = [1, 2, 3]"
    by (simp add: processData_def std_sort_def)
  from processData_no_side_effects [OF lt] obtain h' where
    st: "processData_st ?h 1 = Some (h', length ?h)" and
    len: "length h' = Suc (length ?h)" and
    old: "take (length ?h) h' = ?h" and
    new: "h' ! length ?h = processData (?h ! 1)" and
    val: "validateInput_st ?h 1 = (?h, validateInput (?h ! 1))"
    by blast
  have "h' = take (length ?h) h' @ [h' ! length ?h]"
    using len by (metis lessI take_Suc_conv_app_nth take_all order_refl)
  then have "h' = [[7], [3, 1, 2, 3, 1], [1, 2, 3]]"
    using old new out by simp
  then show ?thesis
    using st val by (simp add: validateInput_def)
qed

text \<open>
  C7: the implemented algorithm (seen-set, first occurrences appended in input order,
  then sorted ascending) gives, for every input sequence, the same result as inserting all
  elements into an ordered set and reading the set back in ascending order.
\<close>

theorem processData_is_ordered_set_alternative:
  "processData S = ordered_set_alternative S"
proof (rule sorted_wrt_sless_unique)
  show "sorted_wrt (<s) (processData S)"
    by (simp add: sorted_wrt_sless_iff sorted_processData distinct_processData)
  have "sorted_wrt (<s) ([] :: cint list)" by simp
  from fold_ordered_set_insert [OF this, of S]
  show "sorted_wrt (<s) (ordered_set_alternative S)"
    and "set (processData S) = set (ordered_set_alternative S)"
    by (simp_all add: ordered_set_alternative_def set_processData)
qed

text \<open>
  C8: processData is total: called with a reference to any live vector, the empty one
  included, its loop ends and the call returns a result; the model has no failure value
  other than a loop that does not end, and that is never the outcome.
\<close>

theorem processData_total:
  assumes "data < length h"
  shows "\<exists>h' result. processData_st h data = Some (h', result)"
  using processData_st_eq [OF assms] by blast

text \<open>
  An instance with a store of two vectors: at address 1 a vector of four elements, on
  which the loop runs four rounds, three that append a new value and one that meets a
  value already seen; at address 0 the empty vector, on which the loop runs no round.
  Both calls return.
\<close>

theorem processData_total_witness:
  "(1::nat) < length [[], [4, - 2, 4, 9 :: cint]]
   \<and> (\<exists>h' result. processData_st [[], [4, - 2, 4, 9]] 1 = Some (h', result))
   \<and> (0::nat) < length [[], [4, - 2, 4, 9 :: cint]]
   \<and> (\<exists>h' result. processData_st [[], [4, - 2, 4, 9]] 0 = Some (h', result))"
proof -
  let ?h = "[[], [4, - 2, 4, 9 :: cint]]"
  have full: "(1::nat) < length ?h" by simp
  have empty: "(0::nat) < length ?h" by simp
  from processData_total [OF full] processData_total [OF empty] full empty
  show ?thesis by blast
qed

text \<open>
  C9: the two operations agree on emptiness: validateInput returns false on \<open>S\<close> exactly
  when processData returns the empty sequence on \<open>S\<close>.
\<close>

theorem validateInput_false_iff_processData_empty:
  "\<not> validateInput S \<longleftrightarrow> processData S = []"
proof -
  have "processData S = [] \<longleftrightarrow> set (processData S) = {}" by simp
  also have "\<dots> \<longleftrightarrow> S = []" by (simp add: set_processData)
  finally show ?thesis by (simp add: validateInput_def)
qed

text \<open>
  C10: the output of processData is at most as long as the input \<open>S\<close>, and exactly as
  long if and only if \<open>S\<close> contains no duplicate values.
\<close>

theorem processData_length:
  "length (processData S) \<le> length S
   \<and> (length (processData S) = length S \<longleftrightarrow> distinct S)"
proof -
  have "length (processData S) = card (set S)"
    using distinct_card [OF distinct_processData, of S] by (simp add: set_processData)
  then show ?thesis
    using card_length [of S] card_distinct [of S] distinct_card [of S] by auto
qed

end
